theory Spec2Isabelle
  imports Complex_Main "HOL-Library.Sublist"
begin

section \<open>Characters and strings of the extractor\<close>

text \<open>
  The extractor of \<^verbatim>\<open>pdf_extractor.py\<close> works on Python \<^verbatim>\<open>str\<close> values. They are
  modelled as \<^typ>\<open>string\<close>, one \<^typ>\<open>char\<close> per code point, read as ASCII text: the
  character classes below are the ASCII part of the classes Python uses (\<^verbatim>\<open>str.isspace\<close>
  and the pattern class \<^verbatim>\<open>\s\<close>: horizontal tab to carriage return, the four separators
  0x1C to 0x1F and the blank; \<^verbatim>\<open>\d\<close>: the ten digits; cased characters: the Latin
  letters). A code point above 127 is in none of the classes.
\<close>

definition isspace :: "char \<Rightarrow> bool" where
  "isspace c = (let n = (of_char c :: nat) in (9 \<le> n \<and> n \<le> 13) \<or> (28 \<le> n \<and> n \<le> 32))"

definition isdigit :: "char \<Rightarrow> bool" where
  "isdigit c = (let n = (of_char c :: nat) in 48 \<le> n \<and> n \<le> 57)"

definition isupper :: "char \<Rightarrow> bool" where
  "isupper c = (let n = (of_char c :: nat) in 65 \<le> n \<and> n \<le> 90)"

definition islower :: "char \<Rightarrow> bool" where
  "islower c = (let n = (of_char c :: nat) in 97 \<le> n \<and> n \<le> 122)"

text \<open>\<^verbatim>\<open>str.isupper()\<close> of a whole string: at least one cased character, and no lower-case one.\<close>

definition str_isupper :: "string \<Rightarrow> bool" where
  "str_isupper s = (list_ex isupper s \<and> list_all (\<lambda>c. \<not> islower c) s)"

text \<open>\<^verbatim>\<open>str.strip()\<close>: leading and trailing white space removed.\<close>

definition strip :: "string \<Rightarrow> string" where
  "strip s = rev (dropWhile isspace (rev (dropWhile isspace s)))"

text \<open>
  \<^verbatim>\<open>str.split()\<close> without arguments: the maximal runs of characters that are not white
  space, in order. The first argument holds the current word, reversed.
\<close>

fun split_from :: "string \<Rightarrow> string \<Rightarrow> string list" where
  "split_from cur [] = (if cur = [] then [] else [rev cur])"
| "split_from cur (c # cs) =
     (if isspace c then (if cur = [] then split_from [] cs else rev cur # split_from [] cs)
      else split_from (c # cur) cs)"

definition split :: "string \<Rightarrow> string list" where
  "split s = split_from [] s"

text \<open>\<^verbatim>\<open>str.startswith\<close> with a tuple of prefixes.\<close>

definition startswith :: "string \<Rightarrow> string list \<Rightarrow> bool" where
  "startswith s ps = list_ex (\<lambda>p. prefix p s) ps"

section \<open>Regular expressions\<close>

text \<open>
  The patterns of the source use character classes, concatenation, alternation by
  \<^verbatim>\<open>?\<close>, and the repetitions \<^verbatim>\<open>*\<close>, \<^verbatim>\<open>+\<close> and \<^verbatim>\<open>{2,}\<close>; groups capture nothing that
  is read. Whether \<^verbatim>\<open>re.match\<close> finds a match does not depend on a repetition being greedy
  or lazy, so a pattern is a regular expression, matched by derivatives.
\<close>

datatype regex =
    Zero
  | Eps
  | Cls "char \<Rightarrow> bool"
  | Seq regex regex
  | Alt regex regex
  | Star regex

fun nullable :: "regex \<Rightarrow> bool" where
  "nullable Zero = False"
| "nullable Eps = True"
| "nullable (Cls p) = False"
| "nullable (Seq r s) = (nullable r \<and> nullable s)"
| "nullable (Alt r s) = (nullable r \<or> nullable s)"
| "nullable (Star r) = True"

fun deriv :: "char \<Rightarrow> regex \<Rightarrow> regex" where
  "deriv c Zero = Zero"
| "deriv c Eps = Zero"
| "deriv c (Cls p) = (if p c then Eps else Zero)"
| "deriv c (Seq r s) =
     (if nullable r then Alt (Seq (deriv c r) s) (deriv c s) else Seq (deriv c r) s)"
| "deriv c (Alt r s) = Alt (deriv c r) (deriv c s)"
| "deriv c (Star r) = Seq (deriv c r) (Star r)"

text \<open>The whole string is in the language of the expression.\<close>

fun matches :: "regex \<Rightarrow> string \<Rightarrow> bool" where
  "matches r [] = nullable r"
| "matches r (c # cs) = matches (deriv c r) cs"

text \<open>
  \<^verbatim>\<open>re.match(r'^R$', s)\<close>: without the MULTILINE flag, \<^verbatim>\<open>$\<close> holds at the end of the
  string and just before a line feed that is its last character.
\<close>

definition match_to_end :: "regex \<Rightarrow> string \<Rightarrow> bool" where
  "match_to_end r s =
     (matches r s \<or> (s \<noteq> [] \<and> last s = CHR 0x0A \<and> matches r (butlast s)))"

text \<open>\<^verbatim>\<open>re.match(r'^R', s)\<close>: some prefix of the string is in the language.\<close>

fun match_prefix :: "regex \<Rightarrow> string \<Rightarrow> bool" where
  "match_prefix r [] = nullable r"
| "match_prefix r (c # cs) = (nullable r \<or> match_prefix (deriv c r) cs)"

text \<open>
  The words of a regular expression, as a reference for the matcher: \<open>matches\<close>
  decides membership and \<open>match_prefix\<close> membership of a prefix (lemmas
  \<open>matches_iff\<close> and \<open>match_prefix_iff\<close>).
\<close>

inductive in_lang :: "regex \<Rightarrow> string \<Rightarrow> bool" where
  in_Eps: "in_lang Eps []"
| in_Cls: "p c \<Longrightarrow> in_lang (Cls p) [c]"
| in_Seq: "in_lang r u \<Longrightarrow> in_lang s v \<Longrightarrow> in_lang (Seq r s) (u @ v)"
| in_AltL: "in_lang r w \<Longrightarrow> in_lang (Alt r s) w"
| in_AltR: "in_lang s w \<Longrightarrow> in_lang (Alt r s) w"
| in_Star_Nil: "in_lang (Star r) []"
| in_Star_App: "in_lang r u \<Longrightarrow> in_lang (Star r) v \<Longrightarrow> in_lang (Star r) (u @ v)"

definition Plus :: "regex \<Rightarrow> regex" where
  "Plus r = Seq r (Star r)"

definition Opt :: "regex \<Rightarrow> regex" where
  "Opt r = Alt r Eps"

definition AtLeast2 :: "regex \<Rightarrow> regex" where
  "AtLeast2 r = Seq r (Seq r (Star r))"

definition Chr :: "char \<Rightarrow> regex" where
  "Chr c = Cls (\<lambda>x. x = c)"

fun Lit :: "string \<Rightarrow> regex" where
  "Lit [] = Eps"
| "Lit (c # cs) = Seq (Chr c) (Lit cs)"

abbreviation digit :: regex where
  "digit \<equiv> Cls isdigit"

abbreviation space :: regex where
  "space \<equiv> Cls isspace"

abbreviation upper :: regex where
  "upper \<equiv> Cls isupper"

abbreviation lower :: regex where
  "lower \<equiv> Cls islower"

text \<open>\<^verbatim>\<open>[^.!?]*?\<close>, the tail of the numbered, chapter and section patterns.\<close>

definition no_stop :: regex where
  "no_stop = Star (Cls (\<lambda>c. c \<notin> set ''.!?''))"

text \<open>
  \<^verbatim>\<open>self.heading_patterns\<close>, in the order of the source. Every pattern is anchored by
  \<^verbatim>\<open>^\<close> and \<^verbatim>\<open>$\<close>; each definition holds what stands between them.
\<close>

text \<open>\<^verbatim>\<open>^(\d+\.?\s+[A-Z][^.!?]*?)$\<close>, "1. Introduction" or "1 Introduction".\<close>

definition numbered_pattern :: regex where
  "numbered_pattern =
     Seq (Plus digit) (Seq (Opt (Chr CHR ''.'')) (Seq (Plus space) (Seq upper no_stop)))"

text \<open>\<^verbatim>\<open>^([A-Z][A-Z\s]{2,}[A-Z])$\<close>, headings in capitals.\<close>

definition all_caps_pattern :: regex where
  "all_caps_pattern = Seq upper (Seq (AtLeast2 (Cls (\<lambda>c. isupper c \<or> isspace c))) upper)"

text \<open>\<^verbatim>\<open>^([A-Z][a-z]+(?:\s+[A-Z][a-z]+)*):?\s*$\<close>, title case headings.\<close>

definition title_case_pattern :: regex where
  "title_case_pattern =
     Seq upper (Seq (Plus lower)
       (Seq (Star (Seq (Plus space) (Seq upper (Plus lower))))
         (Seq (Opt (Chr CHR '':'')) (Star space))))"

text \<open>\<^verbatim>\<open>^(Chapter\s+\d+[:\s]+[^.!?]*?)$\<close> and \<^verbatim>\<open>^(Section\s+\d+[:\s]+[^.!?]*?)$\<close>.\<close>

definition keyword_pattern :: "string \<Rightarrow> regex" where
  "keyword_pattern kw =
     Seq (Lit kw) (Seq (Plus space) (Seq (Plus digit)
       (Seq (Plus (Cls (\<lambda>c. c = CHR '':'' \<or> isspace c))) no_stop)))"

text \<open>\<^verbatim>\<open>^(\d+\.\d+\.?\s+[A-Z][^.!?]*?)$\<close>, "1.1 Subsection".\<close>

definition subsection_pattern :: regex where
  "subsection_pattern =
     Seq (Plus digit) (Seq (Chr CHR ''.'') (Seq (Plus digit) (Seq (Opt (Chr CHR ''.''))
       (Seq (Plus space) (Seq upper no_stop)))))"

text \<open>\<^verbatim>\<open>^(\d+\.\d+\.\d+\.?\s+[A-Z][^.!?]*?)$\<close>, "1.1.1 Subsubsection".\<close>

definition subsubsection_pattern :: regex where
  "subsubsection_pattern =
     Seq (Plus digit) (Seq (Chr CHR ''.'') (Seq (Plus digit) (Seq (Chr CHR ''.'')
       (Seq (Plus digit) (Seq (Opt (Chr CHR ''.'')) (Seq (Plus space) (Seq upper no_stop)))))))"

definition heading_patterns :: "regex list" where
  "heading_patterns =
     [numbered_pattern, all_caps_pattern, title_case_pattern, keyword_pattern ''Chapter'',
      keyword_pattern ''Section'', subsection_pattern, subsubsection_pattern]"

text \<open>
  \<^verbatim>\<open>is_heading_by_pattern\<close>: the bounds on the length, then the patterns in order.
\<close>

definition is_heading_by_pattern :: "string \<Rightarrow> bool" where
  "is_heading_by_pattern text0 =
     (let text = strip text0 in
      if length text < 3 \<or> length text > 200 then False
      else list_ex (\<lambda>pattern. match_to_end pattern text) heading_patterns)"

section \<open>Data model\<close>

text \<open>
  The exceptions the pipeline can raise: \<^verbatim>\<open>text[0]\<close> on an empty string, \<^verbatim>\<open>max\<close> of
  an empty sequence, and a key missing from \<^verbatim>\<open>self.font_thresholds\<close>.
\<close>

datatype error = IndexError | ValueError | KeyError

text \<open>
  One dictionary of \<^verbatim>\<open>formatted_text\<close>, with the keys the pipeline reads
  (\<^verbatim>\<open>"text"\<close>, \<^verbatim>\<open>"font_size"\<close>, \<^verbatim>\<open>"page"\<close>; \<^verbatim>\<open>"bbox"\<close> is stored and never read).
  A font size is a finite float; the pipeline only compares sizes, and finite floats
  compare as the real numbers they denote.
\<close>

record line_record =
  line_text :: string
  font_size :: real
  page :: int

text \<open>The dictionary of thresholds, keys \<^verbatim>\<open>"title"\<close>, \<^verbatim>\<open>"h1"\<close>, \<^verbatim>\<open>"h2"\<close>, \<^verbatim>\<open>"h3"\<close>.\<close>

record thresholds =
  th_title :: real
  th_h1 :: real
  th_h2 :: real
  th_h3 :: real

text \<open>
  What \<^verbatim>\<open>classify_heading_level\<close> returns besides \<^verbatim>\<open>None\<close>: the strings
  \<^verbatim>\<open>"title"\<close>, \<^verbatim>\<open>"H1"\<close>, \<^verbatim>\<open>"H2"\<close>, \<^verbatim>\<open>"H3"\<close>.
\<close>

datatype heading_level = Title | H1 | H2 | H3

record outline_entry =
  level :: heading_level
  heading_text :: string
  heading_page :: int

record outline_result =
  title :: string
  outline :: "outline_entry list"

text \<open>
  The mutable state of a \<^verbatim>\<open>PDFOutlineExtractor\<close>: \<^verbatim>\<open>self.font_thresholds\<close>, the empty
  dictionary (\<open>None\<close>) after \<^verbatim>\<open>__init__\<close> and the four thresholds once
  \<^verbatim>\<open>extract_outline\<close> has stored them.
\<close>

record extractor =
  font_thresholds :: "thresholds option"

definition init :: extractor where
  "init = \<lparr>font_thresholds = None\<rparr>"

section \<open>Threshold estimation\<close>

text \<open>\<^verbatim>\<open>max\<close> of a sequence; \<^verbatim>\<open>ValueError\<close> when it is empty.\<close>

definition py_max :: "real list \<Rightarrow> error + real" where
  "py_max xs = (case xs of [] \<Rightarrow> Inl ValueError | x # rest \<Rightarrow> Inr (fold max rest x))"

text \<open>
  \<^verbatim>\<open>sorted(Counter(font_sizes).keys(), reverse=True)\<close>: the distinct sizes, largest first.
\<close>

definition unique_sizes_of :: "line_record list \<Rightarrow> real list" where
  "unique_sizes_of formatted_text = rev (sort (remdups (map font_size formatted_text)))"

definition determine_font_thresholds :: "line_record list \<Rightarrow> error + thresholds" where
  "determine_font_thresholds formatted_text =
     (let unique_sizes = unique_sizes_of formatted_text in
      if length unique_sizes < 2 then
        (case py_max unique_sizes of
           Inl e \<Rightarrow> Inl e
         | Inr m \<Rightarrow> Inr \<lparr>th_title = m, th_h1 = m, th_h2 = m, th_h3 = m\<rparr>)
      else
        let title_threshold = unique_sizes ! 0;
            h1_threshold = (if length unique_sizes > 1 then unique_sizes ! 1 else unique_sizes ! 0);
            h2_threshold = (if length unique_sizes > 2 then unique_sizes ! 2 else h1_threshold);
            h3_threshold = (if length unique_sizes > 3 then unique_sizes ! 3 else h2_threshold)
        in Inr \<lparr>th_title = title_threshold, th_h1 = h1_threshold,
                 th_h2 = h2_threshold, th_h3 = h3_threshold\<rparr>)"

section \<open>Heading classification\<close>

text \<open>The font-size rules of \<^verbatim>\<open>classify_heading_level\<close> (the \<^verbatim>\<open>if\<close>/\<^verbatim>\<open>elif\<close> chain).\<close>

definition size_level :: "thresholds \<Rightarrow> real \<Rightarrow> int \<Rightarrow> heading_level option" where
  "size_level th fs pg =
     (if fs \<ge> th_title th \<and> pg = 1 then Some Title
      else if fs \<ge> th_h1 th then Some H1
      else if fs \<ge> th_h2 th then Some H2
      else if fs \<ge> th_h3 th then Some H3
      else None)"

text \<open>
  The pattern-based classification that follows when no font-size rule returned:
  \<^verbatim>\<open>^\d+\.\d+\.\d+\<close>, \<^verbatim>\<open>^\d+\.\d+\<close>, \<^verbatim>\<open>^\d+\.\<close>, then capitals with at most five words.
\<close>

definition pattern_level :: "string \<Rightarrow> heading_level option" where
  "pattern_level text =
     (if match_prefix (Seq (Plus digit) (Seq (Chr CHR ''.'') (Seq (Plus digit)
           (Seq (Chr CHR ''.'') (Plus digit))))) text then Some H3
      else if match_prefix (Seq (Plus digit) (Seq (Chr CHR ''.'') (Plus digit))) text then Some H2
      else if match_prefix (Seq (Plus digit) (Chr CHR ''.'')) text then Some H1
      else if str_isupper text \<and> length (split text) \<le> 5 then Some H1
      else None)"

text \<open>
  The second half of \<^verbatim>\<open>classify_heading_level\<close>, after the pattern check: reading
  \<^verbatim>\<open>self.font_thresholds["title"]\<close> raises \<^verbatim>\<open>KeyError\<close> while the dictionary is empty.
\<close>

definition assign_level :: "extractor \<Rightarrow> string \<Rightarrow> real \<Rightarrow> int \<Rightarrow> error + heading_level option" where
  "assign_level self text fs pg =
     (case font_thresholds self of
        None \<Rightarrow> Inl KeyError
      | Some th \<Rightarrow>
         (case size_level th fs pg of
            Some l \<Rightarrow> Inr (Some l)
          | None \<Rightarrow> Inr (pattern_level text)))"

text \<open>
  \<^verbatim>\<open>classify_heading_level\<close>. When the patterns reject the text, \<^verbatim>\<open>text[0]\<close> is read:
  \<^verbatim>\<open>IndexError\<close> on the empty string.
\<close>

definition classify_heading_level ::
  "extractor \<Rightarrow> string \<Rightarrow> real \<Rightarrow> int \<Rightarrow> error + heading_level option" where
  "classify_heading_level self text0 fs pg =
     (let text = strip text0 in
      if \<not> is_heading_by_pattern text then
        (case text of
           [] \<Rightarrow> Inl IndexError
         | c # _ \<Rightarrow>
            if \<not> (isupper c \<and> length (split text) \<le> 10) then Inr None
            else assign_level self text fs pg)
      else assign_level self text fs pg)"

section \<open>Title selection\<close>

text \<open>
  \<^verbatim>\<open>re.sub(r'^\d+\.?\s*', '', title)\<close>: a leading run of digits, one dot after it and the
  white space that follows are removed; a title that starts with no digit is unchanged.
\<close>

definition sub_leading_number :: "string \<Rightarrow> string" where
  "sub_leading_number s =
     (case s of
        [] \<Rightarrow> []
      | c # _ \<Rightarrow>
         if isdigit c then
           (let s1 = dropWhile isdigit s;
                s2 = (case s1 of [] \<Rightarrow> [] | d # ds \<Rightarrow> if d = CHR ''.'' then ds else s1)
            in dropWhile isspace s2)
         else s)"

definition first_page_text :: "line_record list \<Rightarrow> line_record list" where
  "first_page_text formatted_text = filter (\<lambda>item. page item = 1) formatted_text"

text \<open>The records of the first page at its largest font size, longer than 3 characters.\<close>

definition title_candidates :: "line_record list \<Rightarrow> line_record list" where
  "title_candidates fp =
     (case fp of
        [] \<Rightarrow> []
      | x # rest \<Rightarrow>
         (let max_font_size = fold max (map font_size rest) (font_size x) in
          filter (\<lambda>item. font_size item = max_font_size \<and> length (line_text item) > 3) fp))"

text \<open>The test of the fallback loop over the first ten lines of the first page.\<close>

definition looks_like_title :: "line_record \<Rightarrow> bool" where
  "looks_like_title item =
     (let text = strip (line_text item) in
      length text > 5 \<and> length text < 100 \<and>
      \<not> startswith text [''Page'', ''Chapter'', ''Section''] \<and>
      \<not> match_to_end (Plus digit) text)"

definition extract_title :: "line_record list \<Rightarrow> string" where
  "extract_title formatted_text =
     (let fp = first_page_text formatted_text in
      if fp = [] then ''Untitled Document''
      else
        (case title_candidates fp of
           c # _ \<Rightarrow> strip (sub_leading_number (line_text c))
         | [] \<Rightarrow>
            (case find looks_like_title (take 10 fp) of
               Some item \<Rightarrow> strip (line_text item)
             | None \<Rightarrow> ''Untitled Document'')))"

text \<open>The record \<^verbatim>\<open>extract_title\<close> reads the title from, when it reads it from one.\<close>

definition title_source :: "line_record list \<Rightarrow> line_record option" where
  "title_source formatted_text =
     (let fp = first_page_text formatted_text in
      case title_candidates fp of
        c # _ \<Rightarrow> Some c
      | [] \<Rightarrow> find looks_like_title (take 10 fp))"

section \<open>Outline assembly\<close>

text \<open>
  \<^verbatim>\<open>re.sub(r'\s+', ' ', heading_text)\<close>: every maximal run of white space becomes one
  blank. The flag says that the previous character was white space.
\<close>

fun collapse_from :: "bool \<Rightarrow> string \<Rightarrow> string" where
  "collapse_from in_run [] = []"
| "collapse_from in_run (c # cs) =
     (if isspace c then (if in_run then collapse_from True cs else CHR '' '' # collapse_from True cs)
      else c # collapse_from False cs)"

definition normalize_ws :: "string \<Rightarrow> string" where
  "normalize_ws s = collapse_from False s"

text \<open>
  The loop of \<^verbatim>\<open>extract_outline\<close> over \<^verbatim>\<open>formatted_text\<close>, with its two variables
  \<^verbatim>\<open>outline\<close> and \<^verbatim>\<open>seen_headings\<close>. An exception of the classifier leaves the loop.
\<close>

fun collect_headings ::
  "extractor \<Rightarrow> line_record list \<Rightarrow> outline_entry list \<Rightarrow> string set \<Rightarrow>
     error + outline_entry list \<times> string set" where
  "collect_headings self [] outline_acc seen_headings = Inr (outline_acc, seen_headings)"
| "collect_headings self (item # items) outline_acc seen_headings =
     (case classify_heading_level self (line_text item) (font_size item) (page item) of
        Inl e \<Rightarrow> Inl e
      | Inr None \<Rightarrow> collect_headings self items outline_acc seen_headings
      | Inr (Some lv) \<Rightarrow>
         if lv \<noteq> Title then
           (let htext = normalize_ws (strip (line_text item)) in
            if htext \<notin> seen_headings \<and> length htext > 2 then
              collect_headings self items
                (outline_acc @ [\<lparr>level = lv, heading_text = htext, heading_page = page item\<rparr>])
                (insert htext seen_headings)
            else collect_headings self items outline_acc seen_headings)
         else collect_headings self items outline_acc seen_headings)"

text \<open>
  \<^verbatim>\<open>extract_outline\<close>, from the list the text extraction returned. It stores the
  thresholds in \<^verbatim>\<open>self\<close>, so the extractor is returned with the result.
  \<^verbatim>\<open>outline.sort(key=...)\<close> is a stable sort by page.
\<close>

definition extract_outline ::
  "extractor \<Rightarrow> line_record list \<Rightarrow> (error + outline_result) \<times> extractor" where
  "extract_outline self formatted_text =
     (if formatted_text = [] then (Inr \<lparr>title = ''Empty Document'', outline = []\<rparr>, self)
      else
        (case determine_font_thresholds formatted_text of
           Inl e \<Rightarrow> (Inl e, self)
         | Inr th \<Rightarrow>
            (let self' = self\<lparr>font_thresholds := Some th\<rparr>;
                 title_str = extract_title formatted_text
             in case collect_headings self' formatted_text [] {} of
                  Inl e \<Rightarrow> (Inl e, self')
                | Inr (outline_acc, seen_headings) \<Rightarrow>
                   (Inr \<lparr>title = title_str, outline = sort_key heading_page outline_acc\<rparr>,
                    self'))))"

text \<open>
  \<^verbatim>\<open>process_single_pdf\<close>, without the file it writes: a fresh extractor, and the fixed
  result when \<^verbatim>\<open>extract_outline\<close> raised.
\<close>

definition process_single_pdf :: "line_record list \<Rightarrow> outline_result" where
  "process_single_pdf formatted_text =
     (case fst (extract_outline init formatted_text) of
        Inl e \<Rightarrow> \<lparr>title = ''Error Processing Document'', outline = []\<rparr>
      | Inr result \<Rightarrow> result)"

text \<open>
  The entry the loop body builds for one record, before it looks at the set of seen
  headings: the classifier gives the record a level other than the title, and the
  normalised text is longer than 2.
\<close>

definition candidate_entry :: "extractor \<Rightarrow> line_record \<Rightarrow> outline_entry option" where
  "candidate_entry self item =
     (case classify_heading_level self (line_text item) (font_size item) (page item) of
        Inr (Some lv) \<Rightarrow>
          if lv \<noteq> Title \<and> length (normalize_ws (strip (line_text item))) > 2
          then Some \<lparr>level = lv, heading_text = normalize_ws (strip (line_text item)),
                      heading_page = page item\<rparr>
          else None
      | _ \<Rightarrow> None)"

text \<open>
  The entries the loop would append if it kept no set of seen headings, in document
  order; \<open>self\<close> is the extractor with the thresholds stored.
\<close>

definition heading_candidates :: "extractor \<Rightarrow> line_record list \<Rightarrow> outline_entry list" where
  "heading_candidates self formatted_text = List.map_filter (candidate_entry self) formatted_text"

section \<open>Sample documents\<close>

text \<open>The three records of the example in the specification's testable properties.\<close>

definition intro_doc :: "line_record list" where
  "intro_doc =
     [\<lparr>line_text = ''1. Introduction'', font_size = 18, page = 1\<rparr>,
      \<lparr>line_text = ''1.1 Background'', font_size = 14, page = 1\<rparr>,
      \<lparr>line_text = ''1.1 Background'', font_size = 14, page = 2\<rparr>]"

text \<open>A first page whose largest line is only an enumeration number.\<close>

definition number_doc :: "line_record list" where
  "number_doc = [\<lparr>line_text = ''123.'', font_size = 12, page = 1\<rparr>]"

text \<open>Four distinct sizes, and the same document with a fifth, smaller one.\<close>

definition four_doc :: "line_record list" where
  "four_doc =
     [\<lparr>line_text = ''Annual Report'', font_size = 20, page = 1\<rparr>,
      \<lparr>line_text = ''1. Overview'', font_size = 18, page = 2\<rparr>,
      \<lparr>line_text = ''1.1 Scope'', font_size = 16, page = 2\<rparr>,
      \<lparr>line_text = ''1.1.1 Details'', font_size = 14, page = 3\<rparr>]"

definition five_doc :: "line_record list" where
  "five_doc = four_doc @ [\<lparr>line_text = ''1.2 Limits'', font_size = 12, page = 3\<rparr>]"

text \<open>
  A line of 201 characters, one word that starts with a capital, on page 1 and again
  on page 2.
\<close>

definition long_text :: string where
  "long_text = CHR ''A'' # replicate 200 (CHR ''a'')"

definition long_doc :: "line_record list" where
  "long_doc =
     [\<lparr>line_text = long_text, font_size = 12, page = 1\<rparr>,
      \<lparr>line_text = long_text, font_size = 12, page = 2\<rparr>]"

text \<open>Headings that repeat, in another case, on other pages and at other sizes.\<close>

definition repeat_doc :: "line_record list" where
  "repeat_doc =
     [\<lparr>line_text = ''Project Plan'', font_size = 20, page = 1\<rparr>,
      \<lparr>line_text = ''2. Methods'', font_size = 16, page = 3\<rparr>,
      \<lparr>line_text = ''1. Goals'', font_size = 16, page = 2\<rparr>,
      \<lparr>line_text = ''2.   Methods'', font_size = 14, page = 2\<rparr>,
      \<lparr>line_text = ''1. GOALS'', font_size = 14, page = 2\<rparr>,
      \<lparr>line_text = ''Ab'', font_size = 14, page = 2\<rparr>,
      \<lparr>line_text = ''1.1 Scope'', font_size = 14, page = 2\<rparr>]"

text \<open>What the loop collects from \<open>repeat_doc\<close>, and the outline after the sort.\<close>

definition repeat_collected :: "outline_entry list" where
  "repeat_collected =
     [\<lparr>level = H1, heading_text = ''2. Methods'', heading_page = 3\<rparr>,
      \<lparr>level = H1, heading_text = ''1. Goals'', heading_page = 2\<rparr>,
      \<lparr>level = H2, heading_text = ''1. GOALS'', heading_page = 2\<rparr>,
      \<lparr>level = H2, heading_text = ''1.1 Scope'', heading_page = 2\<rparr>]"

definition repeat_outline :: "outline_entry list" where
  "repeat_outline =
     [\<lparr>level = H1, heading_text = ''1. Goals'', heading_page = 2\<rparr>,
      \<lparr>level = H2, heading_text = ''1. GOALS'', heading_page = 2\<rparr>,
      \<lparr>level = H2, heading_text = ''1.1 Scope'', heading_page = 2\<rparr>,
      \<lparr>level = H1, heading_text = ''2. Methods'', heading_page = 3\<rparr>]"

section \<open>Properties\<close>

subsection \<open>The matcher decides the language\<close>

inductive_cases in_ZeroE: "in_lang Zero w"
inductive_cases in_EpsE: "in_lang Eps w"
inductive_cases in_ClsE: "in_lang (Cls p) w"
inductive_cases in_SeqE: "in_lang (Seq r s) w"
inductive_cases in_AltE: "in_lang (Alt r s) w"

lemma nullable_iff: "nullable r \<longleftrightarrow> in_lang r []"
proof (induction r)
  case Zero
  show ?case by (auto elim: in_ZeroE)
next
  case Eps
  show ?case by (auto intro: in_Eps)
next
  case (Cls p)
  show ?case by (auto elim: in_ClsE)
next
  case (Seq r s)
  have "in_lang (Seq r s) [] \<longleftrightarrow> in_lang r [] \<and> in_lang s []"
  proof
    assume "in_lang (Seq r s) []"
    then show "in_lang r [] \<and> in_lang s []" by (rule in_SeqE) simp
  next
    assume "in_lang r [] \<and> in_lang s []"
    then have "in_lang (Seq r s) ([] @ [])" by (blast intro: in_Seq)
    then show "in_lang (Seq r s) []" by simp
  qed
  then show ?case using Seq by simp
next
  case (Alt r s)
  then show ?case by (auto intro: in_AltL in_AltR elim: in_AltE)
next
  case (Star r)
  show ?case by (simp add: in_Star_Nil)
qed

text \<open>A non-empty word of a starred expression starts with a non-empty word of its body.\<close>

lemma in_Star_Cons:
  assumes "in_lang R x" and "R = Star r" and "x = c # w"
  shows "\<exists>u v. w = u @ v \<and> in_lang r (c # u) \<and> in_lang (Star r) v"
  using assms
proof (induction arbitrary: w rule: in_lang.induct)
  case (in_Star_App r' u v)
  show ?case
  proof (cases u)
    case Nil
    then show ?thesis using in_Star_App by simp
  next
    case (Cons a u')
    then have "w = u' @ v" and "in_lang r (c # u')" and "in_lang (Star r) v"
      using in_Star_App.prems in_Star_App.hyps by auto
    then show ?thesis by blast
  qed
qed simp_all

lemma deriv_iff: "in_lang (deriv c r) w \<longleftrightarrow> in_lang r (c # w)"
proof (induction r arbitrary: w)
  case Zero
  show ?case by (auto elim: in_ZeroE)
next
  case Eps
  show ?case by (auto elim: in_ZeroE in_EpsE)
next
  case (Cls p)
  show ?case by (auto elim: in_ZeroE in_EpsE in_ClsE intro: in_Eps in_Cls)
next
  case (Seq r s)
  have seq: "in_lang (Seq r s) (c # w) \<longleftrightarrow>
      (\<exists>u v. w = u @ v \<and> in_lang r (c # u) \<and> in_lang s v) \<or> (in_lang r [] \<and> in_lang s (c # w))"
  proof
    assume "in_lang (Seq r s) (c # w)"
    then obtain u v where uv: "c # w = u @ v" "in_lang r u" "in_lang s v"
      by (auto elim: in_SeqE)
    show "(\<exists>u v. w = u @ v \<and> in_lang r (c # u) \<and> in_lang s v) \<or> (in_lang r [] \<and> in_lang s (c # w))"
    proof (cases u)
      case Nil
      then show ?thesis using uv by simp
    next
      case (Cons a u')
      then show ?thesis using uv by auto
    qed
  next
    assume "(\<exists>u v. w = u @ v \<and> in_lang r (c # u) \<and> in_lang s v) \<or> (in_lang r [] \<and> in_lang s (c # w))"
    then show "in_lang (Seq r s) (c # w)"
    proof
      assume "\<exists>u v. w = u @ v \<and> in_lang r (c # u) \<and> in_lang s v"
      then obtain u v where "w = u @ v" "in_lang r (c # u)" "in_lang s v" by blast
      then have "in_lang (Seq r s) ((c # u) @ v)" and "c # w = (c # u) @ v"
        using in_Seq [of r "c # u" s v] by simp_all
      then show ?thesis by simp
    next
      assume "in_lang r [] \<and> in_lang s (c # w)"
      then have "in_lang (Seq r s) ([] @ (c # w))" by (blast intro: in_Seq)
      then show ?thesis by simp
    qed
  qed
  have d: "in_lang (Seq (deriv c r) s) w \<longleftrightarrow> (\<exists>u v. w = u @ v \<and> in_lang r (c # u) \<and> in_lang s v)"
    using Seq.IH(1) by (auto elim!: in_SeqE intro: in_Seq)
  show ?case
    using seq d Seq.IH(2) [of w] nullable_iff [of r]
    by (auto elim!: in_AltE intro: in_AltL in_AltR)
next
  case (Alt r s)
  then show ?case by (auto elim!: in_AltE intro: in_AltL in_AltR)
next
  case (Star r)
  show ?case
  proof
    assume "in_lang (deriv c (Star r)) w"
    then obtain u v where "w = u @ v" "in_lang (deriv c r) u" "in_lang (Star r) v"
      by (auto elim: in_SeqE)
    then have "in_lang (Star r) ((c # u) @ v)" and "c # w = (c # u) @ v"
      using Star.IH [of u] in_Star_App [of r "c # u" v] by simp_all
    then show "in_lang (Star r) (c # w)" by simp
  next
    assume "in_lang (Star r) (c # w)"
    from in_Star_Cons [OF this refl refl]
    obtain u v where "w = u @ v" "in_lang r (c # u)" "in_lang (Star r) v" by blast
    then show "in_lang (deriv c (Star r)) w"
      using Star.IH by (auto intro: in_Seq)
  qed
qed

lemma matches_iff: "matches r w \<longleftrightarrow> in_lang r w"
  by (induction w arbitrary: r) (simp_all add: nullable_iff deriv_iff)

lemma match_prefix_iff: "match_prefix r s \<longleftrightarrow> (\<exists>u v. s = u @ v \<and> in_lang r u)"
proof (induction s arbitrary: r)
  case Nil
  show ?case by (simp add: nullable_iff)
next
  case (Cons c cs)
  have "(\<exists>u v. c # cs = u @ v \<and> in_lang r u) \<longleftrightarrow>
      in_lang r [] \<or> (\<exists>u v. cs = u @ v \<and> in_lang r (c # u))"
    by (auto simp: Cons_eq_append_conv)
  then show ?case using Cons [of "deriv c r"] by (simp add: nullable_iff deriv_iff)
qed

subsection \<open>Characters and strings\<close>

lemma digit_not_space: "isdigit c \<Longrightarrow> \<not> isspace c"
  by (auto simp: isdigit_def isspace_def Let_def)

lemma space_not_digit: "isspace c \<Longrightarrow> \<not> isdigit c"
  by (auto simp: isdigit_def isspace_def Let_def)

lemma dot_not_digit: "\<not> isdigit CHR ''.''"
  by (simp add: isdigit_def)

lemma dot_not_space: "\<not> isspace CHR ''.''"
  by (simp add: isspace_def)

lemma dropWhile_all: "list_all P xs \<Longrightarrow> dropWhile P (xs @ ys) = dropWhile P ys"
  by (induction xs) auto

lemma dropWhile_none: "list_all P xs \<Longrightarrow> dropWhile P xs = []"
  by (induction xs) auto

lemma dropWhile_spaces_digit: "list_all isspace ws \<Longrightarrow> dropWhile isdigit ws = ws"
  by (cases ws) (auto simp: space_not_digit)

lemma strip_Nil: "strip [] = []"
  by (simp add: strip_def)

lemma is_heading_by_pattern_length:
  "is_heading_by_pattern t \<Longrightarrow> 3 \<le> length (strip t) \<and> length (strip t) \<le> 200"
  by (auto simp: is_heading_by_pattern_def Let_def split: if_splits)

text \<open>
  A text that is nothing but an enumeration number (digits, at most one dot, white
  space) is removed whole by the clean-up of the title.
\<close>

lemma sub_leading_number_Cons:
  "isdigit c \<Longrightarrow>
   sub_leading_number (c # cs) =
     dropWhile isspace
       (case dropWhile isdigit cs of [] \<Rightarrow> []
        | d # ds \<Rightarrow> if d = CHR ''.'' then ds else dropWhile isdigit cs)"
  by (auto simp: sub_leading_number_def Let_def split: list.splits)

lemma sub_leading_number_prefix_only:
  assumes ds: "ds \<noteq> []" "list_all isdigit ds"
    and dot: "dot = [] \<or> dot = ''.''"
    and ws: "list_all isspace ws"
  shows "sub_leading_number (ds @ dot @ ws) = []"
proof -
  obtain d ds' where dsc: "ds = d # ds'" using ds(1) by (cases ds) auto
  have d: "isdigit d" and ds': "list_all isdigit ds'" using ds(2) dsc by simp_all
  have s1: "dropWhile isdigit (ds' @ dot @ ws) = dot @ ws"
  proof -
    have "dropWhile isdigit (ds' @ dot @ ws) = dropWhile isdigit (dot @ ws)"
      using ds' by (rule dropWhile_all)
    also have "\<dots> = dot @ ws"
      using dot ws by (auto simp: dot_not_digit dropWhile_spaces_digit)
    finally show ?thesis .
  qed
  have s2: "dropWhile isspace
      (case dot @ ws of [] \<Rightarrow> [] | x # xs \<Rightarrow> if x = CHR ''.'' then xs else dot @ ws) = []"
  proof (cases "dot = []")
    case True
    then show ?thesis using ws
      by (cases ws) (auto simp: dropWhile_none dot_not_space)
  next
    case False
    then have "dot = ''.''" using dot by simp
    then show ?thesis using ws by (simp add: dropWhile_none)
  qed
  have "sub_leading_number (ds @ dot @ ws) = sub_leading_number (d # (ds' @ dot @ ws))"
    by (simp add: dsc)
  also have "\<dots> = dropWhile isspace
      (case dot @ ws of [] \<Rightarrow> [] | x # xs \<Rightarrow> if x = CHR ''.'' then xs else dot @ ws)"
    by (simp only: sub_leading_number_Cons [OF d] s1)
  finally show ?thesis using s2 by simp
qed

subsection \<open>The stored thresholds\<close>

lemma extractor_update:
  "(self :: extractor)\<lparr>font_thresholds := Some th\<rparr> = \<lparr>font_thresholds = Some th\<rparr>"
  by (cases self) simp

subsection \<open>The worked example\<close>

text \<open>
  C1, as the code computes it. For the three records "1. Introduction" (size 18, page 1),
  "1.1 Background" (size 14, page 1) and "1.1 Background" (size 14, page 2) there are two
  distinct sizes, so the thresholds are title = 18 and h1 = h2 = h3 = 14: h1 is the
  second largest size, which is present. "1. Introduction" is classified as the title
  and left out, the first "1.1 Background" is an H1 entry (14 reaches the h1 threshold),
  and its repetition on page 2 is dropped. The outline is that one H1 entry.
\<close>

theorem C1_intro_doc_outline:
  "determine_font_thresholds intro_doc =
     Inr \<lparr>th_title = 18, th_h1 = 14, th_h2 = 14, th_h3 = 14\<rparr> \<and>
   map (\<lambda>item. classify_heading_level (snd (extract_outline init intro_doc))
          (line_text item) (font_size item) (page item)) intro_doc =
     [Inr (Some Title), Inr (Some H1), Inr (Some H1)] \<and>
   fst (extract_outline init intro_doc) =
     Inr \<lparr>title = ''Introduction'',
          outline = [\<lparr>level = H1, heading_text = ''1.1 Background'', heading_page = 1\<rparr>]\<rparr>"
  by code_simp

text \<open>
  The values of C1 as stated (h1 = 18, and the entry at level H2) are not the ones the
  code computes: the thresholds differ, and so does the outline.
\<close>

theorem C1_counterexample:
  "determine_font_thresholds intro_doc \<noteq>
     Inr \<lparr>th_title = 18, th_h1 = 18, th_h2 = 14, th_h3 = 14\<rparr> \<and>
   map_sum id outline (fst (extract_outline init intro_doc)) \<noteq>
     Inr [\<lparr>level = H2, heading_text = ''1.1 Background'', heading_page = 1\<rparr>]"
  by code_simp

subsection \<open>The empty document\<close>

text \<open>
  C7. When the text extraction yields no record, \<^verbatim>\<open>extract_outline\<close> returns the result
  with title "Empty Document" and an empty outline as a normal value; the extractor is
  left as it was, so no thresholds were stored (computing them would raise, the list of
  sizes being empty), and \<^verbatim>\<open>process_single_pdf\<close> passes the same result on.
\<close>

theorem C7_empty_document:
  "extract_outline self [] = (Inr \<lparr>title = ''Empty Document'', outline = []\<rparr>, self) \<and>
   determine_font_thresholds [] = Inl ValueError \<and>
   process_single_pdf [] = \<lparr>title = ''Empty Document'', outline = []\<rparr>"
  by (simp add: extract_outline_def process_single_pdf_def determine_font_thresholds_def
      unique_sizes_of_def py_max_def)

subsection \<open>Determinism\<close>

text \<open>
  C8. The result of \<^verbatim>\<open>extract_outline\<close> is a function of the records alone: it does not
  depend on the thresholds a previous run left in the extractor, so two extractors in
  any states give the same result, and running the pipeline again on the extractor the
  first run returned gives the first result again.
\<close>

theorem C8_deterministic:
  "fst (extract_outline s1 recs) = fst (extract_outline s2 recs) \<and>
   fst (extract_outline (snd (extract_outline s1 recs)) recs) = fst (extract_outline s1 recs)"
proof -
  have indep: "fst (extract_outline a recs) = fst (extract_outline b recs)" for a b :: extractor
    by (simp add: extract_outline_def extractor_update Let_def split: sum.splits prod.splits)
  show ?thesis
    using indep [of s1 s2] indep [of "snd (extract_outline s1 recs)" s1] by simp
qed

subsection \<open>An empty title\<close>

text \<open>
  C10. When the first record of page 1 at the largest font size of that page, longer
  than 3 characters, is nothing but an enumeration number (digits, an optional dot,
  optional white space, as in "123."), the title selector returns the empty string:
  the clean-up removes the whole text, and neither the fallback scan nor
  "Untitled Document" is used.
\<close>

theorem C10_title_can_be_empty:
  assumes "title_candidates (first_page_text recs) = c # cs"
    and "line_text c = ds @ dot @ ws"
    and "ds \<noteq> []" and "list_all isdigit ds"
    and "dot = [] \<or> dot = ''.''"
    and "list_all isspace ws"
  shows "3 < length (line_text c) \<and> extract_title recs = []"
proof -
  have fp: "first_page_text recs \<noteq> []"
    using assms(1) by (auto simp: title_candidates_def)
  have "c \<in> set (title_candidates (first_page_text recs))"
    using assms(1) by simp
  then have len: "3 < length (line_text c)"
    by (auto simp: title_candidates_def Let_def split: list.splits)
  have "sub_leading_number (line_text c) = []"
    using assms(2-6) by (simp add: sub_leading_number_prefix_only)
  then have "extract_title recs = []"
    using fp assms(1) by (simp add: extract_title_def Let_def strip_Nil)
  with len show ?thesis by simp
qed

theorem C10_witness:
  "title_candidates (first_page_text number_doc) =
     [\<lparr>line_text = ''123.'', font_size = 12, page = 1\<rparr>] \<and>
   list_all isdigit ''123'' \<and>
   3 < length ''123.'' \<and> extract_title number_doc = []"
proof -
  have tc: "title_candidates (first_page_text number_doc) =
      [\<lparr>line_text = ''123.'', font_size = 12, page = 1\<rparr>]"
    by code_simp
  have dg: "list_all isdigit ''123''"
    by code_simp
  have "extract_title number_doc = []"
    using C10_title_can_be_empty [of number_doc _ "[]" "''123''" "''.''" "[]", OF tc] dg
    by simp
  with tc dg show ?thesis by simp
qed

subsection \<open>Thresholds\<close>

lemma unique_sizes_sorted: "sorted (rev (unique_sizes_of recs))"
  by (simp add: unique_sizes_of_def)

lemma unique_sizes_set: "set (unique_sizes_of recs) = font_size ` set recs"
  by (simp add: unique_sizes_of_def)

lemma unique_sizes_length: "length (unique_sizes_of recs) = card (font_size ` set recs)"
  by (simp add: unique_sizes_of_def length_remdups_card_conv)

lemma unique_sizes_nonempty: "recs \<noteq> [] \<Longrightarrow> unique_sizes_of recs \<noteq> []"
  using unique_sizes_set [of recs] by (cases recs) auto

text \<open>Each threshold is the size at its rank, or the last size when the rank is missing.\<close>

lemma determine_font_thresholds_nth:
  assumes "recs \<noteq> []"
  defines "us \<equiv> unique_sizes_of recs"
  shows "determine_font_thresholds recs =
     Inr \<lparr>th_title = us ! 0, th_h1 = us ! min 1 (length us - 1),
          th_h2 = us ! min 2 (length us - 1), th_h3 = us ! min 3 (length us - 1)\<rparr>"
proof -
  have ne: "us \<noteq> []" using assms by (simp add: unique_sizes_nonempty)
  show ?thesis
  proof (cases "length us < 2")
    case True
    then obtain x where "us = [x]" using ne
      by (cases us) (auto simp: length_Suc_conv)
    then show ?thesis
      by (simp add: determine_font_thresholds_def Let_def py_max_def us_def [symmetric])
  next
    case False
    then consider "length us = 2" | "length us = 3" | "4 \<le> length us"
      by linarith
    then show ?thesis
    proof cases
      case 1
      then show ?thesis
        by (simp add: determine_font_thresholds_def Let_def us_def [symmetric])
    next
      case 2
      then show ?thesis
        by (simp add: determine_font_thresholds_def Let_def us_def [symmetric])
    next
      case 3
      then have "min 1 (length us - 1) = 1" "min 2 (length us - 1) = 2"
        "min 3 (length us - 1) = 3"
        by simp_all
      then show ?thesis
        using 3 by (simp add: determine_font_thresholds_def Let_def us_def [symmetric])
    qed
  qed
qed

lemma h3_is_smallest:
  assumes "determine_font_thresholds recs = Inr th" and "item \<in> set recs"
    and "card (font_size ` set recs) \<le> 4"
  shows "th_h3 th \<le> font_size item"
proof -
  let ?us = "unique_sizes_of recs"
  have recs: "recs \<noteq> []" using assms(2) by auto
  have ne: "?us \<noteq> []" using recs by (simp add: unique_sizes_nonempty)
  have len: "length ?us \<le> 4" using assms(3) by (simp add: unique_sizes_length)
  have "min 3 (length ?us - 1) = length ?us - 1" using len by simp
  then have h3: "th_h3 th = ?us ! (length ?us - 1)"
    using determine_font_thresholds_nth [OF recs] assms(1) by simp
  have "font_size item \<in> set ?us" using assms(2) by (simp add: unique_sizes_set)
  then obtain i where i: "i < length ?us" "?us ! i = font_size item"
    by (auto simp: in_set_conv_nth)
  have "?us ! (length ?us - 1) \<le> ?us ! i"
    using unique_sizes_sorted by (rule sorted_rev_nth_mono) (use i ne in auto)
  then show ?thesis using h3 i by simp
qed

text \<open>
  C4. For every non-empty list of records the threshold estimator returns thresholds
  (it does not raise), and they satisfy title \<open>\<ge>\<close> h1 \<open>\<ge>\<close> h2 \<open>\<ge>\<close> h3. This covers
  documents with fewer than 4 distinct sizes: a missing rank takes the last size present.
\<close>

theorem C4_thresholds_ordered:
  assumes "recs \<noteq> []"
  shows "\<exists>th. determine_font_thresholds recs = Inr th \<and>
     th_title th \<ge> th_h1 th \<and> th_h1 th \<ge> th_h2 th \<and> th_h2 th \<ge> th_h3 th"
proof -
  let ?us = "unique_sizes_of recs"
  have ne: "?us \<noteq> []" using assms by (simp add: unique_sizes_nonempty)
  have mono: "?us ! j \<le> ?us ! i" if "i \<le> j" "j < length ?us" for i j
    using unique_sizes_sorted that by (rule sorted_rev_nth_mono)
  have lt: "min k (length ?us - 1) < length ?us" for k
  proof -
    have "0 < length ?us" using ne by simp
    then show ?thesis by linarith
  qed
  have "?us ! min 1 (length ?us - 1) \<le> ?us ! 0"
    by (rule mono [OF _ lt]) simp
  moreover have "?us ! min 2 (length ?us - 1) \<le> ?us ! min 1 (length ?us - 1)"
    by (rule mono [OF _ lt]) simp
  moreover have "?us ! min 3 (length ?us - 1) \<le> ?us ! min 2 (length ?us - 1)"
    by (rule mono [OF _ lt]) simp
  ultimately show ?thesis
    using determine_font_thresholds_nth [OF assms] by simp
qed

theorem C4_witness:
  "intro_doc \<noteq> [] \<and> card (font_size ` set intro_doc) = 2 \<and>
   (\<exists>th. determine_font_thresholds intro_doc = Inr th \<and>
     th_title th \<ge> th_h1 th \<and> th_h1 th \<ge> th_h2 th \<and> th_h2 th \<ge> th_h3 th)"
proof -
  have ne: "intro_doc \<noteq> []" by (simp add: intro_doc_def)
  have "card (font_size ` set intro_doc) = 2" by code_simp
  then show ?thesis using ne C4_thresholds_ordered [OF ne] by simp
qed

subsection \<open>Font-size rules and the pattern fallback\<close>

lemma size_level_reaches_h3:
  "th_h3 th \<le> fs \<Longrightarrow> size_level th fs pg \<noteq> None"
  by (simp add: size_level_def)

lemma size_level_None: "size_level th fs pg = None \<Longrightarrow> fs < th_h3 th"
  by (simp add: size_level_def split: if_splits)

lemma assign_level_by_size:
  "size_level th fs pg \<noteq> None \<Longrightarrow>
   assign_level \<lparr>font_thresholds = Some th\<rparr> t fs pg = Inr (size_level th fs pg)"
  by (auto simp: assign_level_def split: option.splits)

text \<open>
  C2, as the code behaves. The thresholds are computed from the document and the line
  is one of its records. When the document has at most 4 distinct font sizes (every
  document with collapsed thresholds among them), the h3 threshold is its smallest
  size, so a font-size rule fires for the line and the level comes from the font-size
  rules alone: the pattern fallback is not consulted. Hence the branch where no
  font-size rule fires is reached only in documents with at least 5 distinct sizes.
\<close>

theorem C2_fallback_needs_five_sizes:
  assumes "determine_font_thresholds recs = Inr th" and "item \<in> set recs"
  shows "(card (font_size ` set recs) \<le> 4 \<longrightarrow>
           size_level th (font_size item) (page item) \<noteq> None \<and>
           assign_level \<lparr>font_thresholds = Some th\<rparr> t (font_size item) (page item) =
             Inr (size_level th (font_size item) (page item))) \<and>
         (size_level th (font_size item) (page item) = None \<longrightarrow>
           5 \<le> card (font_size ` set recs))"
proof -
  have a: "size_level th (font_size item) (page item) \<noteq> None"
    if "card (font_size ` set recs) \<le> 4"
    using h3_is_smallest [OF assms that] by (rule size_level_reaches_h3)
  then have "5 \<le> card (font_size ` set recs)"
    if "size_level th (font_size item) (page item) = None"
    using that by fastforce
  then show ?thesis using a assign_level_by_size by blast
qed

theorem C2_witness:
  "determine_font_thresholds four_doc =
     Inr \<lparr>th_title = 20, th_h1 = 18, th_h2 = 16, th_h3 = 14\<rparr> \<and>
   card (font_size ` set four_doc) = 4 \<and>
   size_level \<lparr>th_title = 20, th_h1 = 18, th_h2 = 16, th_h3 = 14\<rparr> 14 3 = Some H3 \<and>
   assign_level \<lparr>font_thresholds = Some \<lparr>th_title = 20, th_h1 = 18, th_h2 = 16, th_h3 = 14\<rparr>\<rparr>
     ''1.1.1 Details'' 14 3 = Inr (Some H3) \<and>
   determine_font_thresholds five_doc =
     Inr \<lparr>th_title = 20, th_h1 = 18, th_h2 = 16, th_h3 = 14\<rparr> \<and>
   size_level \<lparr>th_title = 20, th_h1 = 18, th_h2 = 16, th_h3 = 14\<rparr> 12 3 = None \<and>
   5 \<le> card (font_size ` set five_doc)"
proof -
  let ?th = "\<lparr>th_title = 20, th_h1 = 18, th_h2 = 16, th_h3 = 14\<rparr>"
  let ?a = "\<lparr>line_text = ''1.1.1 Details'', font_size = 14, page = 3\<rparr>"
  let ?b = "\<lparr>line_text = ''1.2 Limits'', font_size = 12, page = 3\<rparr>"
  have th4: "determine_font_thresholds four_doc = Inr ?th" by code_simp
  have th5: "determine_font_thresholds five_doc = Inr ?th" by code_simp
  have in4: "?a \<in> set four_doc" by (simp add: four_doc_def)
  have in5: "?b \<in> set five_doc" by (simp add: five_doc_def)
  have c4: "card (font_size ` set four_doc) = 4" by code_simp
  have none: "size_level ?th 12 3 = None" by (simp add: size_level_def)
  have some: "size_level ?th 14 3 = Some H3" by (simp add: size_level_def)
  have "assign_level \<lparr>font_thresholds = Some ?th\<rparr> ''1.1.1 Details'' 14 3 = Inr (Some H3)"
    using C2_fallback_needs_five_sizes [OF th4 in4, of "''1.1.1 Details''"] c4 some by simp
  moreover have "5 \<le> card (font_size ` set five_doc)"
    using C2_fallback_needs_five_sizes [OF th5 in5] none by simp
  ultimately show ?thesis using th4 th5 c4 none some by simp
qed

text \<open>
  C2 as stated fails: \<open>five_doc\<close> has five distinct sizes and no collapsed threshold,
  yet its smallest line is below all four thresholds, no font-size rule fires, and the
  line gets its level H2 from the numeric-prefix fallback.
\<close>

theorem C2_counterexample:
  "card (font_size ` set five_doc) = 5 \<and>
   determine_font_thresholds five_doc =
     Inr \<lparr>th_title = 20, th_h1 = 18, th_h2 = 16, th_h3 = 14\<rparr> \<and>
   size_level \<lparr>th_title = 20, th_h1 = 18, th_h2 = 16, th_h3 = 14\<rparr> 12 3 = None \<and>
   classify_heading_level
     \<lparr>font_thresholds = Some \<lparr>th_title = 20, th_h1 = 18, th_h2 = 16, th_h3 = 14\<rparr>\<rparr>
     ''1.2 Limits'' 12 3 = Inr (Some H2) \<and>
   map_sum id outline (fst (extract_outline init five_doc)) =
     Inr [\<lparr>level = H1, heading_text = ''1. Overview'', heading_page = 2\<rparr>,
          \<lparr>level = H2, heading_text = ''1.1 Scope'', heading_page = 2\<rparr>,
          \<lparr>level = H3, heading_text = ''1.1.1 Details'', heading_page = 3\<rparr>,
          \<lparr>level = H2, heading_text = ''1.2 Limits'', heading_page = 3\<rparr>]"
  by code_simp

subsection \<open>The classifier returns\<close>

lemma assign_level_total:
  "font_thresholds self = Some th \<Longrightarrow> \<exists>lv. assign_level self t fs pg = Inr lv"
  by (simp add: assign_level_def split: option.splits)

lemma classify_total:
  assumes "font_thresholds self = Some th" and "strip t \<noteq> []"
  shows "\<exists>lv. classify_heading_level self t fs pg = Inr lv"
  using assms assign_level_total [OF assms(1)]
  by (auto simp: classify_heading_level_def Let_def split: list.splits)

lemma not_heading_Nil: "\<not> is_heading_by_pattern []"
  by (simp add: is_heading_by_pattern_def strip_Nil)

text \<open>
  C9. With the thresholds stored, the classifier returns a value (no level, or one of
  title, H1, H2, H3) without raising for every text whose stripped form is not empty.
  For a text that strips to the empty string the pattern check fails and the read of
  \<^verbatim>\<open>text[0]\<close> raises \<^verbatim>\<open>IndexError\<close>. When the pattern check accepts the text,
  \<^verbatim>\<open>text[0]\<close> is not read: the result is that of the level assignment.
\<close>

theorem C9_classifier_total:
  assumes "font_thresholds self = Some th"
  shows "(strip t \<noteq> [] \<longrightarrow> (\<exists>lv. classify_heading_level self t fs pg = Inr lv)) \<and>
         (strip t = [] \<longrightarrow> classify_heading_level self t fs pg = Inl IndexError) \<and>
         (is_heading_by_pattern (strip t) \<longrightarrow>
            classify_heading_level self t fs pg = assign_level self (strip t) fs pg)"
proof -
  have "classify_heading_level self t fs pg = Inl IndexError" if "strip t = []"
    using that by (simp add: classify_heading_level_def not_heading_Nil)
  moreover have "classify_heading_level self t fs pg = assign_level self (strip t) fs pg"
    if "is_heading_by_pattern (strip t)"
    using that by (simp add: classify_heading_level_def)
  ultimately show ?thesis
    using classify_total [OF assms] by blast
qed

theorem C9_witness:
  "strip ''1.1 Background'' \<noteq> [] \<and>
   classify_heading_level \<lparr>font_thresholds = Some \<lparr>th_title = 18, th_h1 = 14, th_h2 = 14, th_h3 = 14\<rparr>\<rparr>
     ''1.1 Background'' 14 2 = Inr (Some H1) \<and>
   is_heading_by_pattern (strip ''1.1 Background'') \<and>
   strip ''  '' = [] \<and>
   classify_heading_level \<lparr>font_thresholds = Some \<lparr>th_title = 18, th_h1 = 14, th_h2 = 14, th_h3 = 14\<rparr>\<rparr>
     ''  '' 14 2 = Inl IndexError"
proof -
  let ?self = "\<lparr>font_thresholds = Some \<lparr>th_title = 18, th_h1 = 14, th_h2 = 14, th_h3 = 14\<rparr>\<rparr>"
  have st: "font_thresholds ?self = Some \<lparr>th_title = 18, th_h1 = 14, th_h2 = 14, th_h3 = 14\<rparr>"
    by simp
  have e: "strip ''  '' = []" by code_simp
  have p: "is_heading_by_pattern (strip ''1.1 Background'')" by code_simp
  have a: "assign_level ?self (strip ''1.1 Background'') 14 2 = Inr (Some H1)" by code_simp
  have n: "strip ''1.1 Background'' \<noteq> []" by code_simp
  have "classify_heading_level ?self ''  '' 14 2 = Inl IndexError"
    using C9_classifier_total [OF st, of "''  ''" 14 2] e by simp
  moreover have "classify_heading_level ?self ''1.1 Background'' 14 2 = Inr (Some H1)"
    using C9_classifier_total [OF st, of "''1.1 Background''" 14 2] p a by simp
  ultimately show ?thesis using e p n by simp
qed

subsection \<open>The loop over the records\<close>

lemma length_strip_le: "length (strip s) \<le> length s"
proof -
  have "length (strip s) \<le> length (dropWhile isspace s)"
    unfolding strip_def using length_dropWhile_le [of isspace "rev (dropWhile isspace s)"]
    by simp
  also have "\<dots> \<le> length s" by (rule length_dropWhile_le)
  finally show ?thesis .
qed

lemma length_collapse_from_le: "length (collapse_from b s) \<le> length s"
  by (induction s arbitrary: b) (auto intro: le_SucI)

lemma length_normalize_strip_le: "length (normalize_ws (strip s)) \<le> length s"
  using length_collapse_from_le [of False "strip s"] length_strip_le [of s]
  by (simp add: normalize_ws_def)

lemma candidate_entry_Some:
  "candidate_entry self item = Some e \<Longrightarrow>
     heading_text e = normalize_ws (strip (line_text item)) \<and> heading_page e = page item \<and>
     2 < length (heading_text e) \<and>
     (\<exists>lv. classify_heading_level self (line_text item) (font_size item) (page item) =
        Inr (Some lv) \<and> lv \<noteq> Title \<and> level e = lv)"
  by (auto simp: candidate_entry_def split: sum.splits option.splits if_splits)

lemma heading_candidates_Nil: "heading_candidates self [] = []"
  by (simp add: heading_candidates_def)

lemma heading_candidates_Cons:
  "heading_candidates self (item # items) =
     (case candidate_entry self item of
        None \<Rightarrow> heading_candidates self items
      | Some e \<Rightarrow> e # heading_candidates self items)"
  by (simp add: heading_candidates_def split: option.splits)

lemma heading_candidates_source:
  "e \<in> set (heading_candidates self recs) \<Longrightarrow> \<exists>r\<in>set recs. candidate_entry self r = Some e"
  by (auto simp: heading_candidates_def List.map_filter_def)

text \<open>One turn of the loop, in terms of the entry built for the record.\<close>

lemma collect_headings_step:
  assumes "classify_heading_level self (line_text item) (font_size item) (page item) = Inr lv"
  shows "collect_headings self (item # items) acc seen =
     (case candidate_entry self item of
        None \<Rightarrow> collect_headings self items acc seen
      | Some e \<Rightarrow>
          if heading_text e \<notin> seen
          then collect_headings self items (acc @ [e]) (insert (heading_text e) seen)
          else collect_headings self items acc seen)"
  using assms by (cases lv) (auto simp: candidate_entry_def Let_def)

lemma collect_headings_Inl:
  assumes "classify_heading_level self (line_text item) (font_size item) (page item) = Inl err"
  shows "collect_headings self (item # items) acc seen = Inl err"
  using assms by simp

lemma collect_headings_inv:
  assumes "collect_headings self recs acc seen = Inr (acc', seen')"
  shows "\<exists>new. acc' = acc @ new \<and> seen' = seen \<union> heading_text ` set new \<and>
     distinct (map heading_text new) \<and>
     (\<forall>e\<in>set new. heading_text e \<notin> seen \<and>
        find (\<lambda>c. heading_text c = heading_text e) (heading_candidates self recs) = Some e) \<and>
     subseq new (heading_candidates self recs) \<and>
     heading_text ` set (heading_candidates self recs) \<subseteq> seen'"
  using assms
proof (induction recs arbitrary: acc seen)
  case Nil
  then show ?case by (simp add: heading_candidates_Nil)
next
  case (Cons item items)
  obtain lv where lv: "classify_heading_level self (line_text item) (font_size item) (page item) = Inr lv"
    using Cons.prems by (cases "classify_heading_level self (line_text item) (font_size item) (page item)") auto
  note step = collect_headings_step [OF lv, of items acc seen]
  show ?case
  proof (cases "candidate_entry self item")
    case None
    then have "collect_headings self items acc seen = Inr (acc', seen')"
      using Cons.prems step by simp
    from Cons.IH [OF this] show ?thesis
      using None by (simp add: heading_candidates_Cons)
  next
    case (Some e)
    show ?thesis
    proof (cases "heading_text e \<in> seen")
      case True
      then have "collect_headings self items acc seen = Inr (acc', seen')"
        using Cons.prems step Some by simp
      from Cons.IH [OF this] obtain new where new:
        "acc' = acc @ new" "seen' = seen \<union> heading_text ` set new"
        "distinct (map heading_text new)"
        "\<forall>e\<in>set new. heading_text e \<notin> seen \<and>
          find (\<lambda>c. heading_text c = heading_text e) (heading_candidates self items) = Some e"
        "subseq new (heading_candidates self items)"
        "heading_text ` set (heading_candidates self items) \<subseteq> seen'"
        by blast
      have "\<forall>x\<in>set new. heading_text x \<notin> seen \<and>
          find (\<lambda>c. heading_text c = heading_text x) (e # heading_candidates self items) = Some x"
        using new(4) True by auto
      moreover have "subseq new (e # heading_candidates self items)"
        using new(5) by (rule list_emb_Cons)
      moreover have "heading_text ` set (e # heading_candidates self items) \<subseteq> seen'"
        using new(2,6) True by auto
      ultimately show ?thesis
        using new(1-3) Some by (auto simp: heading_candidates_Cons)
    next
      case False
      then have "collect_headings self items (acc @ [e]) (insert (heading_text e) seen) = Inr (acc', seen')"
        using Cons.prems step Some by simp
      from Cons.IH [OF this] obtain new where new:
        "acc' = (acc @ [e]) @ new" "seen' = insert (heading_text e) seen \<union> heading_text ` set new"
        "distinct (map heading_text new)"
        "\<forall>x\<in>set new. heading_text x \<notin> insert (heading_text e) seen \<and>
          find (\<lambda>c. heading_text c = heading_text x) (heading_candidates self items) = Some x"
        "subseq new (heading_candidates self items)"
        "heading_text ` set (heading_candidates self items) \<subseteq> seen'"
        by blast
      let ?new = "e # new"
      have 1: "acc' = acc @ ?new" using new(1) by simp
      have 2: "seen' = seen \<union> heading_text ` set ?new" using new(2) by auto
      have 3: "distinct (map heading_text ?new)" using new(3,4) by auto
      have 4: "\<forall>x\<in>set ?new. heading_text x \<notin> seen \<and>
          find (\<lambda>c. heading_text c = heading_text x) (e # heading_candidates self items) = Some x"
        using new(4) False by auto
      have 5: "subseq ?new (e # heading_candidates self items)"
        using new(5) by simp
      have 6: "heading_text ` set (e # heading_candidates self items) \<subseteq> seen'"
        using new(2,6) by auto
      show ?thesis
        using 1 2 3 4 5 6 Some by (simp only: heading_candidates_Cons option.case) blast
    qed
  qed
qed

lemma collect_headings_total:
  assumes "font_thresholds self = Some th" and "\<forall>r\<in>set recs. strip (line_text r) \<noteq> []"
  shows "\<exists>acc' seen'. collect_headings self recs acc seen = Inr (acc', seen')"
  using assms(2)
proof (induction recs arbitrary: acc seen)
  case Nil
  then show ?case by simp
next
  case (Cons item items)
  then have "strip (line_text item) \<noteq> []" by simp
  from classify_total [OF assms(1) this]
  obtain lv where lv: "classify_heading_level self (line_text item) (font_size item) (page item) = Inr lv"
    by blast
  have ih: "\<exists>acc' seen'. collect_headings self items a s = Inr (acc', seen')" for a s
    using Cons by simp
  show ?case
    unfolding collect_headings_step [OF lv]
    using ih by (auto split: option.splits)
qed

lemma find_Some_set: "find P xs = Some x \<Longrightarrow> P x \<and> x \<in> set xs"
  by (induction xs) (auto split: if_splits)

lemma subseq_set: "subseq xs ys \<Longrightarrow> set xs \<subseteq> set ys"
  by (auto dest: list_emb_set)


lemma extract_outline_returns:
  assumes "\<forall>r\<in>set recs. strip (line_text r) \<noteq> []"
  shows "\<exists>acc seen self'.
     extract_outline self recs =
       (Inr \<lparr>title = (if recs = [] then ''Empty Document'' else extract_title recs),
             outline = sort_key heading_page acc\<rparr>, self') \<and>
     collect_headings self' recs [] {} = Inr (acc, seen)"
proof (cases "recs = []")
  case True
  then show ?thesis by (simp add: extract_outline_def)
next
  case False
  from determine_font_thresholds_nth [OF False]
  obtain th where th: "determine_font_thresholds recs = Inr th" by blast
  let ?self = "\<lparr>font_thresholds = Some th\<rparr> :: extractor"
  have "font_thresholds ?self = Some th" by simp
  from collect_headings_total [OF this assms, of "[]" "{}"]
  obtain acc seen where c: "collect_headings ?self recs [] {} = Inr (acc, seen)" by blast
  have "extract_outline self recs =
      (Inr \<lparr>title = extract_title recs, outline = sort_key heading_page acc\<rparr>, ?self)"
    using False th c by (simp add: extract_outline_def extractor_update)
  then show ?thesis using False c by auto
qed

lemma extract_outline_Inr:
  assumes "fst (extract_outline self recs) = Inr res"
  shows "\<exists>acc seen. collect_headings (snd (extract_outline self recs)) recs [] {} = Inr (acc, seen) \<and>
     outline res = sort_key heading_page acc"
proof (cases "recs = []")
  case True
  then show ?thesis using assms by (auto simp: extract_outline_def)
next
  case False
  then show ?thesis using assms
    by (auto simp: extract_outline_def Let_def split: sum.splits prod.splits)
qed

lemma collected_from_candidates:
  assumes "collect_headings self recs [] {} = Inr (acc, seen)"
  shows "distinct (map heading_text acc)"
    and "\<forall>e\<in>set acc. find (\<lambda>c. heading_text c = heading_text e) (heading_candidates self recs) = Some e"
    and "subseq acc (heading_candidates self recs)"
    and "heading_text ` set (heading_candidates self recs) = heading_text ` set acc"
proof -
  from collect_headings_inv [OF assms] have inv:
    "seen = heading_text ` set acc" "distinct (map heading_text acc)"
    "\<forall>e\<in>set acc. find (\<lambda>c. heading_text c = heading_text e) (heading_candidates self recs) = Some e"
    "subseq acc (heading_candidates self recs)"
    "heading_text ` set (heading_candidates self recs) \<subseteq> seen"
    by auto
  show "distinct (map heading_text acc)" by (rule inv(2))
  show "\<forall>e\<in>set acc. find (\<lambda>c. heading_text c = heading_text e) (heading_candidates self recs) = Some e"
    by (rule inv(3))
  show "subseq acc (heading_candidates self recs)" by (rule inv(4))
  have "set acc \<subseteq> set (heading_candidates self recs)"
    using inv(4) by (rule subseq_set)
  then show "heading_text ` set (heading_candidates self recs) = heading_text ` set acc"
    using inv(1,5) by auto
qed

lemma distinct_map_sort_key:
  "distinct (map f (sort_key g xs)) = distinct (map f xs)"
  by (simp add: distinct_map)

lemma repeat_doc_texts: "\<forall>r\<in>set repeat_doc. strip (line_text r) \<noteq> []"
proof -
  have "list_all (\<lambda>r. strip (line_text r) \<noteq> []) repeat_doc" by code_simp
  then show ?thesis by (simp add: list_all_iff)
qed

lemma repeat_doc_result:
  "extract_outline init repeat_doc =
     (Inr \<lparr>title = ''Project Plan'', outline = repeat_outline\<rparr>,
      \<lparr>font_thresholds = Some \<lparr>th_title = 20, th_h1 = 16, th_h2 = 14, th_h3 = 14\<rparr>\<rparr>)"
  by code_simp

subsection \<open>No repeated heading text\<close>

text \<open>
  C5. For every list of records with non-empty stripped text the pipeline returns an
  outline in which no two entries have the same normalised text. Among the records
  that reach the set of seen headings (the classifier gives them level H1, H2 or H3
  and their normalised text is longer than 2, \<open>heading_candidates\<close>), the first in
  document order with a given text is the one kept: every entry of the outline is the
  first candidate with its text, whatever the pages and levels of the later ones, and
  every candidate's text is in the outline. Texts are compared as they are, so texts
  that differ only in case are different.
\<close>

theorem C5_outline_texts_unique:
  assumes "\<forall>r\<in>set recs. strip (line_text r) \<noteq> []"
  shows "\<exists>res self'. extract_outline self recs = (Inr res, self') \<and>
     distinct (map heading_text (outline res)) \<and>
     (\<forall>e\<in>set (outline res).
        find (\<lambda>c. heading_text c = heading_text e) (heading_candidates self' recs) = Some e) \<and>
     heading_text ` set (heading_candidates self' recs) = heading_text ` set (outline res)"
proof -
  from extract_outline_returns [OF assms, of self]
  obtain acc seen self' where
    r: "extract_outline self recs =
       (Inr \<lparr>title = (if recs = [] then ''Empty Document'' else extract_title recs),
             outline = sort_key heading_page acc\<rparr>, self')"
    and c: "collect_headings self' recs [] {} = Inr (acc, seen)"
    by blast
  note p = collected_from_candidates [OF c]
  show ?thesis
    using r p(1,2,4) by (simp add: distinct_map_sort_key)
qed

theorem C5_witness:
  "list_all (\<lambda>r. strip (line_text r) \<noteq> []) repeat_doc \<and>
   fst (extract_outline init repeat_doc) =
     Inr \<lparr>title = ''Project Plan'', outline = repeat_outline\<rparr> \<and>
   map heading_text (heading_candidates (snd (extract_outline init repeat_doc)) repeat_doc) =
     [''2. Methods'', ''1. Goals'', ''2. Methods'', ''1. GOALS'', ''1.1 Scope''] \<and>
   distinct (map heading_text repeat_outline) \<and>
   find (\<lambda>c. heading_text c = ''2. Methods'')
     (heading_candidates (snd (extract_outline init repeat_doc)) repeat_doc) =
     Some \<lparr>level = H1, heading_text = ''2. Methods'', heading_page = 3\<rparr> \<and>
   heading_text ` set (heading_candidates (snd (extract_outline init repeat_doc)) repeat_doc) =
     heading_text ` set repeat_outline"
proof -
  have h: "list_all (\<lambda>r. strip (line_text r) \<noteq> []) repeat_doc" by code_simp
  have cands: "map heading_text
      (heading_candidates (snd (extract_outline init repeat_doc)) repeat_doc) =
     [''2. Methods'', ''1. Goals'', ''2. Methods'', ''1. GOALS'', ''1.1 Scope'']"
    by code_simp
  have m: "\<lparr>level = H1, heading_text = ''2. Methods'', heading_page = 3\<rparr> \<in> set repeat_outline"
    by (simp add: repeat_outline_def)
  from C5_outline_texts_unique [OF repeat_doc_texts, of init]
  obtain res self' where r: "extract_outline init repeat_doc = (Inr res, self')"
    and p: "distinct (map heading_text (outline res))"
      "\<forall>e\<in>set (outline res).
        find (\<lambda>c. heading_text c = heading_text e) (heading_candidates self' repeat_doc) = Some e"
      "heading_text ` set (heading_candidates self' repeat_doc) = heading_text ` set (outline res)"
    by blast
  have res: "res = \<lparr>title = ''Project Plan'', outline = repeat_outline\<rparr>"
    and self': "self' = snd (extract_outline init repeat_doc)"
    using r repeat_doc_result by simp_all
  have "find (\<lambda>c. heading_text c = ''2. Methods'')
     (heading_candidates (snd (extract_outline init repeat_doc)) repeat_doc) =
     Some \<lparr>level = H1, heading_text = ''2. Methods'', heading_page = 3\<rparr>"
    using p(2) m unfolding res self' by fastforce
  then show ?thesis
    using h cands p(1,3) repeat_doc_result unfolding res self' by simp
qed

subsection \<open>Sorted by page, in encounter order\<close>

text \<open>
  C6. For every list of records with non-empty stripped text the outline returned is
  sorted by page number, ascending, and the sort is stable: for each page, the entries
  of that page stand in the outline in the order in which the loop appended them,
  which is the order of their records in the document.
\<close>

theorem C6_outline_sorted_stable:
  assumes "\<forall>r\<in>set recs. strip (line_text r) \<noteq> []"
  shows "\<exists>res self' acc seen. extract_outline self recs = (Inr res, self') \<and>
     collect_headings self' recs [] {} = Inr (acc, seen) \<and>
     subseq acc (heading_candidates self' recs) \<and>
     sorted (map heading_page (outline res)) \<and>
     (\<forall>k. filter (\<lambda>e. heading_page e = k) (outline res) =
           filter (\<lambda>e. heading_page e = k) acc)"
proof -
  from extract_outline_returns [OF assms, of self]
  obtain acc seen self' where
    r: "extract_outline self recs =
       (Inr \<lparr>title = (if recs = [] then ''Empty Document'' else extract_title recs),
             outline = sort_key heading_page acc\<rparr>, self')"
    and c: "collect_headings self' recs [] {} = Inr (acc, seen)"
    by blast
  note p = collected_from_candidates [OF c]
  show ?thesis
    using r c p(3) by (simp add: sort_key_stable)
qed

theorem C6_witness:
  "list_all (\<lambda>r. strip (line_text r) \<noteq> []) repeat_doc \<and>
   fst (extract_outline init repeat_doc) =
     Inr \<lparr>title = ''Project Plan'', outline = repeat_outline\<rparr> \<and>
   map_sum id fst (collect_headings (snd (extract_outline init repeat_doc)) repeat_doc [] {}) =
     Inr repeat_collected \<and>
   sorted (map heading_page repeat_outline) \<and>
   filter (\<lambda>e. heading_page e = 2) repeat_outline =
     filter (\<lambda>e. heading_page e = 2) repeat_collected \<and>
   filter (\<lambda>e. heading_page e = 3) repeat_outline =
     filter (\<lambda>e. heading_page e = 3) repeat_collected"
proof -
  have h: "list_all (\<lambda>r. strip (line_text r) \<noteq> []) repeat_doc" by code_simp
  have l: "map_sum id fst
      (collect_headings (snd (extract_outline init repeat_doc)) repeat_doc [] {}) =
     Inr repeat_collected"
    by code_simp
  from C6_outline_sorted_stable [OF repeat_doc_texts, of init]
  obtain res self' acc seen where r: "extract_outline init repeat_doc = (Inr res, self')"
    and c: "collect_headings self' repeat_doc [] {} = Inr (acc, seen)"
    and p: "sorted (map heading_page (outline res))"
      "\<forall>k. filter (\<lambda>e. heading_page e = k) (outline res) = filter (\<lambda>e. heading_page e = k) acc"
    by blast
  have res: "res = \<lparr>title = ''Project Plan'', outline = repeat_outline\<rparr>"
    and self': "self' = snd (extract_outline init repeat_doc)"
    using r repeat_doc_result by simp_all
  have acc: "acc = repeat_collected"
    using l c unfolding self' by simp
  show ?thesis
    using h l p repeat_doc_result unfolding res acc by simp
qed

subsection \<open>Length of the lines that are used\<close>

lemma title_candidates_props:
  "c \<in> set (title_candidates fp) \<Longrightarrow> c \<in> set fp \<and> 3 < length (line_text c)"
  by (auto simp: title_candidates_def Let_def split: list.splits)

lemma looks_like_title_length: "looks_like_title r \<Longrightarrow> 5 < length (line_text r)"
  using length_strip_le [of "line_text r"] by (simp add: looks_like_title_def Let_def)

lemma title_source_props:
  assumes "title_source recs = Some r"
  shows "r \<in> set recs \<and> page r = 1 \<and> 3 < length (line_text r)"
proof (cases "title_candidates (first_page_text recs)")
  case Nil
  then have f: "find looks_like_title (take 10 (first_page_text recs)) = Some r"
    using assms by (simp add: title_source_def)
  then have "looks_like_title r" and "r \<in> set (take 10 (first_page_text recs))"
    by (auto dest: find_Some_set)
  then have "looks_like_title r" and "r \<in> set (first_page_text recs)"
    by (auto dest: in_set_takeD)
  then show ?thesis
    using looks_like_title_length [of r] by (auto simp: first_page_text_def)
next
  case (Cons c cs)
  then have "r = c" using assms by (simp add: title_source_def)
  then have "r \<in> set (title_candidates (first_page_text recs))" using Cons by simp
  from title_candidates_props [OF this] show ?thesis
    by (auto simp: first_page_text_def)
qed

lemma extract_title_source:
  "extract_title recs =
     (case title_source recs of
        None \<Rightarrow> ''Untitled Document''
      | Some r \<Rightarrow>
          if title_candidates (first_page_text recs) = [] then strip (line_text r)
          else strip (sub_leading_number (line_text r)))"
  by (auto simp: extract_title_def title_source_def title_candidates_def Let_def
      split: list.splits option.splits)

text \<open>
  C3, as the code behaves. Whenever the pipeline returns a result, every entry of the
  outline has a normalised text longer than 2 and comes from a record of at least 3
  characters, so a line shorter than 3 characters never appears as an outline entry;
  and the record the title is read from is longer than 3 characters, so such a line is
  never the selected title either. Nothing is stated about lines longer than 200
  characters.
\<close>

theorem C3_short_lines_excluded:
  assumes "fst (extract_outline self recs) = Inr res"
  shows "(\<forall>e\<in>set (outline res). 2 < length (heading_text e) \<and>
            (\<exists>r\<in>set recs. heading_text e = normalize_ws (strip (line_text r)) \<and>
               heading_page e = page r \<and> 3 \<le> length (line_text r))) \<and>
         (\<forall>r. length (line_text r) < 3 \<longrightarrow>
            normalize_ws (strip (line_text r)) \<notin> heading_text ` set (outline res) \<and>
            title_source recs \<noteq> Some r) \<and>
         (\<forall>r. title_source recs = Some r \<longrightarrow> r \<in> set recs \<and> 3 < length (line_text r))"
proof -
  from extract_outline_Inr [OF assms]
  obtain acc seen where
    c: "collect_headings (snd (extract_outline self recs)) recs [] {} = Inr (acc, seen)"
    and o: "outline res = sort_key heading_page acc"
    by blast
  let ?self = "snd (extract_outline self recs)"
  have sub: "set acc \<subseteq> set (heading_candidates ?self recs)"
    using collected_from_candidates(3) [OF c] by (rule subseq_set)
  have entry: "2 < length (heading_text e) \<and>
      (\<exists>r\<in>set recs. heading_text e = normalize_ws (strip (line_text r)) \<and>
         heading_page e = page r \<and> 3 \<le> length (line_text r))"
    if "e \<in> set (outline res)" for e
  proof -
    have "e \<in> set (heading_candidates ?self recs)" using that o sub by auto
    from heading_candidates_source [OF this]
    obtain r where r: "r \<in> set recs" "candidate_entry ?self r = Some e" by blast
    from candidate_entry_Some [OF r(2)]
    have e: "heading_text e = normalize_ws (strip (line_text r))" "heading_page e = page r"
      "2 < length (heading_text e)" by auto
    have "3 \<le> length (line_text r)"
      using e(1,3) length_normalize_strip_le [of "line_text r"] by simp
    then show ?thesis using r(1) e by blast
  qed
  have short: "normalize_ws (strip (line_text r)) \<notin> heading_text ` set (outline res) \<and>
      title_source recs \<noteq> Some r" if "length (line_text r) < 3" for r
  proof -
    have "length (normalize_ws (strip (line_text r))) < 3"
      using that length_normalize_strip_le [of "line_text r"] by simp
    then have "normalize_ws (strip (line_text r)) \<notin> heading_text ` set (outline res)"
      using entry by fastforce
    moreover have "title_source recs \<noteq> Some r"
      using that title_source_props [of recs r] by auto
    ultimately show ?thesis by simp
  qed
  show ?thesis
    using entry short title_source_props by blast
qed

theorem C3_witness:
  "fst (extract_outline init repeat_doc) =
     Inr \<lparr>title = ''Project Plan'', outline = repeat_outline\<rparr> \<and>
   list_all (\<lambda>e. 2 < length (heading_text e)) repeat_outline \<and>
   length ''Ab'' < 3 \<and>
   normalize_ws (strip ''Ab'') \<notin> heading_text ` set repeat_outline \<and>
   title_source repeat_doc = Some \<lparr>line_text = ''Project Plan'', font_size = 20, page = 1\<rparr> \<and>
   3 < length ''Project Plan''"
proof -
  have r: "fst (extract_outline init repeat_doc) =
     Inr \<lparr>title = ''Project Plan'', outline = repeat_outline\<rparr>"
    using repeat_doc_result by simp
  have t: "title_source repeat_doc =
      Some \<lparr>line_text = ''Project Plan'', font_size = 20, page = 1\<rparr>"
    by code_simp
  note c3 = C3_short_lines_excluded [OF r]
  have "list_all (\<lambda>e. 2 < length (heading_text e)) repeat_outline"
    using c3 by (simp add: list_all_iff)
  moreover have "normalize_ws (strip ''Ab'') \<notin> heading_text ` set repeat_outline"
    using c3 [THEN conjunct2, THEN conjunct1, rule_format,
        of "\<lparr>line_text = ''Ab'', font_size = 14, page = 2\<rparr>"]
    by simp
  moreover have "3 < length ''Project Plan''"
    using c3 t by simp
  ultimately show ?thesis using r t by simp
qed

text \<open>
  C3 as stated fails for long lines: a line of 201 characters, one capitalised word, is
  rejected by the patterns but passes the upper-case and word-count check, so on page 2
  it becomes an H1 entry of the outline, and on page 1, at the largest size, it is the
  selected title.
\<close>

theorem C3_counterexample:
  "200 < length long_text \<and>
   fst (extract_outline init long_doc) =
     Inr \<lparr>title = long_text,
          outline = [\<lparr>level = H1, heading_text = long_text, heading_page = 2\<rparr>]\<rparr> \<and>
   title_source long_doc = Some \<lparr>line_text = long_text, font_size = 12, page = 1\<rparr>"
proof -
  have "200 < length long_text" by (simp add: long_text_def)
  moreover have "fst (extract_outline init long_doc) =
     Inr \<lparr>title = long_text,
          outline = [\<lparr>level = H1, heading_text = long_text, heading_page = 2\<rparr>]\<rparr>"
    by code_simp
  moreover have "title_source long_doc = Some \<lparr>line_text = long_text, font_size = 12, page = 1\<rparr>"
    by code_simp
  ultimately show ?thesis by simp
qed

end
